theory Spec2Isabelle
  imports Main "HOL-Library.Word"
begin

unbundle bit_operations_syntax

section \<open>The sketch \<open>Arduino/car.ino\<close>: data model\<close>

text \<open>
  The sketch runs on an AVR Arduino (it uses Timer2 through the NewPing library and the
  analog pins A0 to A5 as digital inputs). There \<open>unsigned int\<close> has 16 bits,
  \<open>unsigned long\<close> has 32 bits and \<open>double\<close> is the IEEE binary32 format.
  Array indices and the loop counter \<open>i\<close> only take the values 0, 1 and 2 and are
  natural numbers in the model.
\<close>

type_synonym uint = "16 word"
type_synonym ulong = "32 word"

datatype level = LOW | HIGH

text \<open>The pins the sketch names: the analog pins by name, the digital ones by number.\<close>

datatype pin = A0 | A1 | A2 | A3 | A4 | A5 | D nat

definition SPEED_INPUT2 :: pin where "SPEED_INPUT2 = A0"
definition SPEED_INPUT1 :: pin where "SPEED_INPUT1 = A1"
definition SPEED_INPUT0 :: pin where "SPEED_INPUT0 = A2"

definition SPEED_MOTOR_PIN2 :: pin where "SPEED_MOTOR_PIN2 = D 11"
definition SPEED_MOTOR_PIN1 :: pin where "SPEED_MOTOR_PIN1 = D 10"
definition SPEED_MOTOR_PIN0 :: pin where "SPEED_MOTOR_PIN0 = D 9"

definition TURN_INPUT2 :: pin where "TURN_INPUT2 = A3"
definition TURN_INPUT1 :: pin where "TURN_INPUT1 = A4"
definition TURN_INPUT0 :: pin where "TURN_INPUT0 = A5"

definition TURN_MOTOR_PIN2 :: pin where "TURN_MOTOR_PIN2 = D 6"
definition TURN_MOTOR_PIN1 :: pin where "TURN_MOTOR_PIN1 = D 5"
definition TURN_MOTOR_PIN0 :: pin where "TURN_MOTOR_PIN0 = D 4"

definition PING_INTERVAL :: nat where "PING_INTERVAL = 33"
definition NUM_SENSORS :: nat where "NUM_SENSORS = 3"

definition MOVE_FORWARD :: uint where "MOVE_FORWARD = 0"
definition MOVE_BACKWARD :: uint where "MOVE_BACKWARD = 1"
definition TURN_LEFT :: uint where "TURN_LEFT = 1"
definition TURN_RIGHT :: uint where "TURN_RIGHT = 0"

text \<open>
  What the program does that an observer can see, in the order it does it: a deadline
  found due for sensor \<open>i\<close> at clock reading \<open>t\<close> (line 108), a call of
  \<open>writeDistanceData\<close> (line 111), \<open>timer_stop\<close> on a sensor (line 113), the reset
  of a sensor's entry of \<open>data\<close> (line 115) and \<open>ping_timer\<close> on a sensor (line 116).
\<close>

datatype event = Fire nat ulong | Report | Stop nat | Reset nat | Arm nat

text \<open>
  The globals of the sketch (\<open>pingTimer\<close>, \<open>data\<close>, \<open>currentSensor\<close>; \<open>pingSpeed\<close>
  is never used) and the world they act on: \<open>armed\<close> is the set of sensors whose
  ranging timer has been started by \<open>ping_timer\<close> and not stopped since, \<open>serial\<close> the
  bytes written to the UART so far, \<open>analog_out\<close> and \<open>digital_out\<close> the last value
  written to each output pin, and \<open>trace\<close> the history of events.
\<close>

record state =
  pingTimer :: "ulong list"
  data :: "ulong list"
  currentSensor :: nat
  armed :: "nat set"
  serial :: string
  analog_out :: "pin \<Rightarrow> int"
  digital_out :: "pin \<Rightarrow> level"
  trace :: "event list"

text \<open>
  What one pass of \<open>loop\<close> reads from outside: \<open>millis inp i\<close> is the value of the
  call of \<open>millis()\<close> in the test for sensor \<open>i\<close>, \<open>digitalRead inp p\<close> the level
  of input pin \<open>p\<close>.
\<close>

record inputs =
  millis :: "nat \<Rightarrow> ulong"
  digitalRead :: "pin \<Rightarrow> level"

section \<open>Input decoding and actuation\<close>

definition readSpeedInput :: "inputs \<Rightarrow> uint" where
  "readSpeedInput inp =
     (if digitalRead inp SPEED_INPUT2 = HIGH then 4 else 0)
     + (if digitalRead inp SPEED_INPUT1 = HIGH then 2 else 0)
     + (if digitalRead inp SPEED_INPUT0 = HIGH then 1 else 0)"

definition readTurnInput :: "inputs \<Rightarrow> uint" where
  "readTurnInput inp =
     (if digitalRead inp TURN_INPUT2 = HIGH then 4 else 0)
     + (if digitalRead inp TURN_INPUT1 = HIGH then 2 else 0)
     + (if digitalRead inp TURN_INPUT0 = HIGH then 1 else 0)"

text \<open>
  The \<open>switch\<close> of lines 123 to 127, repeated in lines 133 to 137: the percentage starts
  at 0 and the cases 1, 2 and 3 of the low two bits overwrite it.
\<close>

definition switch_percent :: "uint \<Rightarrow> uint" where
  "switch_percent input =
     (if input AND 3 = 1 then 33
      else if input AND 3 = 2 then 67
      else if input AND 3 = 3 then 100
      else 0)"

subsection \<open>The duty value \<open>percent * 2.55\<close>\<close>

text \<open>
  \<open>analogWrite(pin, percent * 2.55)\<close> converts \<open>percent\<close> to \<open>double\<close>, multiplies
  by the constant and converts the product to the \<open>int\<close> parameter of \<open>analogWrite\<close>,
  which drops the fraction. On this target \<open>double\<close> is binary32: a value has 24
  significant bits and every operation rounds to the nearest such value, ties to the
  even one. The constant \<open>2.55\<close> is therefore the binary32 number
  \<open>10695475 / 2^22\<close>, the conversion of \<open>percent\<close> (below \<open>2^16\<close>) is exact, and the
  product is \<open>percent * 10695475\<close>, rounded to 24 significant bits, over \<open>2^22\<close>.
  (The conversion to \<open>int\<close> is only defined up to 32767; \<open>loop\<close> passes 0, 33, 67
  and 100.)
\<close>

fun bits :: "nat \<Rightarrow> nat" where
  "bits n = (if n = 0 then 0 else Suc (bits (n div 2)))"

declare bits.simps [simp del]

definition round24 :: "nat \<Rightarrow> nat" where
  "round24 n =
     (if bits n \<le> 24 then n
      else let sh = bits n - 24; q = n div 2 ^ sh; r = n mod 2 ^ sh; h = 2 ^ (sh - 1)
           in (if r < h \<or> (r = h \<and> even q) then q else q + 1) * 2 ^ sh)"

definition scale_2_55_mantissa :: nat where
  "scale_2_55_mantissa = 10695475"

definition times_2_55 :: "uint \<Rightarrow> int" where
  "times_2_55 percent = int (round24 (unat percent * scale_2_55_mantissa) div 2 ^ 22)"

definition analogWrite :: "pin \<Rightarrow> int \<Rightarrow> state \<Rightarrow> state" where
  "analogWrite p v s = s\<lparr>analog_out := (analog_out s)(p := v)\<rparr>"

definition digitalWrite :: "pin \<Rightarrow> level \<Rightarrow> state \<Rightarrow> state" where
  "digitalWrite p l s = s\<lparr>digital_out := (digital_out s)(p := l)\<rparr>"

definition writeSpeedData :: "uint \<Rightarrow> uint \<Rightarrow> state \<Rightarrow> state" where
  "writeSpeedData direction percent s =
     (let s1 = analogWrite SPEED_MOTOR_PIN2 (times_2_55 percent) s
      in if direction = MOVE_FORWARD then
           digitalWrite SPEED_MOTOR_PIN0 LOW (digitalWrite SPEED_MOTOR_PIN1 HIGH s1)
         else if direction = MOVE_BACKWARD then
           digitalWrite SPEED_MOTOR_PIN0 HIGH (digitalWrite SPEED_MOTOR_PIN1 LOW s1)
         else
           digitalWrite SPEED_MOTOR_PIN0 LOW (digitalWrite SPEED_MOTOR_PIN1 LOW s1))"

definition writeTurnData :: "uint \<Rightarrow> uint \<Rightarrow> state \<Rightarrow> state" where
  "writeTurnData direction percent s =
     (let s1 = analogWrite TURN_MOTOR_PIN2 (times_2_55 percent) s
      in if direction = TURN_LEFT then
           digitalWrite TURN_MOTOR_PIN0 LOW (digitalWrite TURN_MOTOR_PIN1 HIGH s1)
         else if direction = TURN_RIGHT then
           digitalWrite TURN_MOTOR_PIN0 HIGH (digitalWrite TURN_MOTOR_PIN1 LOW s1)
         else
           digitalWrite TURN_MOTOR_PIN0 LOW (digitalWrite TURN_MOTOR_PIN1 LOW s1))"

text \<open>Lines 121 to 138 of \<open>loop\<close>: the speed bus, then the turn bus.\<close>

definition update_speed :: "inputs \<Rightarrow> state \<Rightarrow> state" where
  "update_speed inp s =
     (let speedInput = readSpeedInput inp;
          speedPercent = switch_percent speedInput
      in writeSpeedData (drop_bit 2 speedInput) speedPercent s)"

definition update_turn :: "inputs \<Rightarrow> state \<Rightarrow> state" where
  "update_turn inp s =
     (let turnInput = readTurnInput inp;
          turnPercent = switch_percent turnInput
      in writeTurnData (drop_bit 2 turnInput) turnPercent s)"

definition actuate :: "inputs \<Rightarrow> state \<Rightarrow> state" where
  "actuate inp s = update_turn inp (update_speed inp s)"

section \<open>The distance report\<close>

text \<open>
  \<open>Serial.print(unsigned long)\<close> of the Arduino core (not part of the sketch) writes
  the decimal digits of the number, most significant first, without padding: its loop
  takes the last digit off (\<open>n % 10\<close>, \<open>n /= 10\<close>) until nothing is left, at least
  once. \<open>Serial.println()\<close> writes a carriage return and a line feed, the \<open>'\r\n'\<close>
  of the comment above \<open>writeDistanceData\<close>.
\<close>

definition digit_char :: "nat \<Rightarrow> char" where
  "digit_char d = ''0123456789'' ! d"

fun print_number :: "nat \<Rightarrow> string" where
  "print_number n =
     (if n < 10 then [digit_char n] else print_number (n div 10) @ [digit_char (n mod 10)])"

declare print_number.simps [simp del]

definition Serial_print :: "string \<Rightarrow> state \<Rightarrow> state" where
  "Serial_print bytes s = s\<lparr>serial := serial s @ bytes\<rparr>"

definition Serial_println :: "state \<Rightarrow> state" where
  "Serial_println s = Serial_print [CHR 0x0D, CHR 0x0A] s"

definition print_field :: "nat \<Rightarrow> state \<Rightarrow> state" where
  "print_field i s = Serial_print [CHR 0x09] (Serial_print (print_number (unat (data s ! i))) s)"

definition writeDistanceData :: "state \<Rightarrow> state" where
  "writeDistanceData s =
     (let s1 = fold print_field [0..<NUM_SENSORS] s;
          s2 = Serial_println s1
      in s2\<lparr>trace := trace s2 @ [Report]\<rparr>)"

section \<open>The acquisition scheduler\<close>

text \<open>
  The globals before \<open>setup\<close>: zero-initialised arrays, \<open>currentSensor = 0\<close>, no
  timer started, nothing written. \<open>setup\<close> (here \<open>setup_car\<close>) reads the clock
  once (\<open>t\<close>).
  The pin modes set by \<open>initSpeedPins\<close> and \<open>initTurnPins\<close> are not modelled.
\<close>

definition power_on :: state where
  "power_on = \<lparr>pingTimer = replicate NUM_SENSORS 0, data = replicate NUM_SENSORS 0,
     currentSensor = 0, armed = {}, serial = [],
     analog_out = (\<lambda>_. 0), digital_out = (\<lambda>_. LOW), trace = []\<rparr>"

definition set_start :: "nat \<Rightarrow> state \<Rightarrow> state" where
  "set_start i s =
     s\<lparr>pingTimer := (pingTimer s)[i := pingTimer s ! (i - 1) + of_nat PING_INTERVAL]\<rparr>"

definition setup_car :: "ulong \<Rightarrow> state" where
  "setup_car t =
     (let s0 = power_on\<lparr>data := fold (\<lambda>i d. d[i := 0]) [0..<NUM_SENSORS] (data power_on)\<rparr>;
          s1 = s0\<lparr>pingTimer := (pingTimer s0)[0 := t + 75]\<rparr>
      in fold set_start [1..<NUM_SENSORS] s1)"

text \<open>
  The body of the \<open>for\<close> loop of \<open>loop\<close> statement by statement: \<open>fire\<close> is the
  test of line 108 found true with clock reading \<open>t\<close> (it only writes the trace), the
  others are lines 109 to 116. \<open>timer_stop\<close> and \<open>ping_timer\<close> are those of the NewPing
  object \<open>sonar[currentSensor]\<close>: the first stops that sensor's timer, the second starts
  it. The arrays are lists of length 3; all indices used are in range in every state the
  program reaches (\<open>bounds_inv\<close> below), where C would not define the access otherwise.
\<close>

definition fire :: "nat \<Rightarrow> ulong \<Rightarrow> state \<Rightarrow> state" where
  "fire i t s = s\<lparr>trace := trace s @ [Fire i t]\<rparr>"

definition advance :: "nat \<Rightarrow> state \<Rightarrow> state" where
  "advance i s =
     s\<lparr>pingTimer := (pingTimer s)[i := pingTimer s ! i + of_nat (PING_INTERVAL * NUM_SENSORS)]\<rparr>"

definition report_if_cycle :: "nat \<Rightarrow> state \<Rightarrow> state" where
  "report_if_cycle i s =
     (if i = 0 \<and> currentSensor s = NUM_SENSORS - 1 then writeDistanceData s else s)"

definition timer_stop :: "state \<Rightarrow> state" where
  "timer_stop s =
     s\<lparr>armed := armed s - {currentSensor s}, trace := trace s @ [Stop (currentSensor s)]\<rparr>"

definition set_current :: "nat \<Rightarrow> state \<Rightarrow> state" where
  "set_current i s = s\<lparr>currentSensor := i\<rparr>"

definition reset_data :: "state \<Rightarrow> state" where
  "reset_data s =
     s\<lparr>data := (data s)[currentSensor s := 0], trace := trace s @ [Reset (currentSensor s)]\<rparr>"

definition ping_timer :: "state \<Rightarrow> state" where
  "ping_timer s =
     s\<lparr>armed := insert (currentSensor s) (armed s), trace := trace s @ [Arm (currentSensor s)]\<rparr>"

definition transition :: "nat \<Rightarrow> ulong \<Rightarrow> state \<Rightarrow> state" where
  "transition i t s =
     ping_timer (reset_data (set_current i (timer_stop (report_if_cycle i (advance i (fire i t s))))))"

definition check_sensor :: "inputs \<Rightarrow> nat \<Rightarrow> state \<Rightarrow> state" where
  "check_sensor inp i s =
     (if pingTimer s ! i \<le> millis inp i then transition i (millis inp i) s else s)"

definition sched :: "inputs \<Rightarrow> state \<Rightarrow> state" where
  "sched inp s = fold (check_sensor inp) [0..<NUM_SENSORS] s"

definition loop :: "inputs \<Rightarrow> state \<Rightarrow> state" where
  "loop inp s = actuate inp (sched inp s)"

section \<open>The completion handler\<close>

text \<open>
  What the NewPing object of the current sensor (a library, not part of the sketch)
  presents to the handler: the answer of \<open>check_timer()\<close>, whether that call stopped
  the sensor's timer, the field \<open>ping_result\<close> and the library's constant
  \<open>US_ROUNDTRIP_CM\<close>, which the sketch does not define.
\<close>

record sonar =
  check_timer :: bool
  timer_stopped :: bool
  ping_result :: ulong
  US_ROUNDTRIP_CM :: ulong

definition echoCheck :: "sonar \<Rightarrow> state \<Rightarrow> state" where
  "echoCheck r s =
     (let s1 = (if timer_stopped r then s\<lparr>armed := armed s - {currentSensor s}\<rparr> else s)
      in if check_timer r
         then s1\<lparr>data := (data s1)[currentSensor s1 := ping_result r div US_ROUNDTRIP_CM r]\<rparr>
         else s1)"

section \<open>Runs\<close>

text \<open>A run of the program after \<open>setup\<close>: passes of \<open>loop\<close> and interrupts between them.\<close>

datatype action = Loop inputs | Irq sonar

fun act :: "action \<Rightarrow> state \<Rightarrow> state" where
  "act (Loop inp) s = loop inp s"
| "act (Irq r) s = echoCheck r s"

definition run :: "action list \<Rightarrow> state \<Rightarrow> state" where
  "run as s = fold act as s"

text \<open>
  The same program statement by statement, so that an interrupt can fall between any
  two statements of \<open>loop\<close>: the program counter names the statement to execute next.
\<close>

datatype pc = Check nat | Advance nat | MaybeReport nat | TimerStop nat | SetCurrent nat
  | ResetData nat | PingTimer nat | Actuate

definition next_sensor :: "nat \<Rightarrow> pc" where
  "next_sensor i = (if Suc i < NUM_SENSORS then Check (Suc i) else Actuate)"

fun main_step :: "inputs \<Rightarrow> pc \<times> state \<Rightarrow> pc \<times> state" where
  "main_step inp (Check i, s) =
     (if pingTimer s ! i \<le> millis inp i then (Advance i, fire i (millis inp i) s)
      else (next_sensor i, s))"
| "main_step inp (Advance i, s) = (MaybeReport i, advance i s)"
| "main_step inp (MaybeReport i, s) = (TimerStop i, report_if_cycle i s)"
| "main_step inp (TimerStop i, s) = (SetCurrent i, timer_stop s)"
| "main_step inp (SetCurrent i, s) = (ResetData i, set_current i s)"
| "main_step inp (ResetData i, s) = (PingTimer i, reset_data s)"
| "main_step inp (PingTimer i, s) = (next_sensor i, ping_timer s)"
| "main_step inp (Actuate, s) = (Check 0, actuate inp s)"

datatype step = Main inputs | Interrupt sonar

fun small_step :: "step \<Rightarrow> pc \<times> state \<Rightarrow> pc \<times> state" where
  "small_step (Main inp) c = main_step inp c"
| "small_step (Interrupt r) (p, s) = (p, echoCheck r s)"

definition small_run :: "step list \<Rightarrow> pc \<times> state \<Rightarrow> pc \<times> state" where
  "small_run steps c = fold small_step steps c"

section \<open>Specification-level notions\<close>

text \<open>
  The line of the report in the words of the interface description: the three entries of
  \<open>data\<close> in index order, each in decimal and followed by a tab, then the line break.
\<close>

definition report_line :: "ulong list \<Rightarrow> string" where
  "report_line d =
     print_number (unat (d ! 0)) @ [CHR 0x09] @ print_number (unat (d ! 1)) @ [CHR 0x09]
     @ print_number (unat (d ! 2)) @ [CHR 0x09] @ [CHR 0x0D, CHR 0x0A]"

text \<open>
  Inputs of a pass during which the clock reads \<open>t\<close> at every test and all command
  lines are low, and the sonar of a sensor whose echo came back (or not) after \<open>us\<close>
  microseconds, with 57 microseconds per centimetre of round trip.
\<close>

definition steady :: "ulong \<Rightarrow> inputs" where
  "steady t = \<lparr>millis = (\<lambda>_. t), digitalRead = (\<lambda>_. LOW)\<rparr>"

definition echo_reply :: "bool \<Rightarrow> ulong \<Rightarrow> sonar" where
  "echo_reply ok us =
     \<lparr>check_timer = ok, timer_stopped = ok, ping_result = us, US_ROUNDTRIP_CM = 57\<rparr>"

text \<open>The number that a string of decimal digits denotes.\<close>

definition decimal_value :: "string \<Rightarrow> nat" where
  "decimal_value cs = fold (\<lambda>c n. 10 * n + (of_char c - 48)) cs 0"

text \<open>
  Invariants of the statement-level program: the arrays keep their length and every
  index is below \<open>NUM_SENSORS\<close>; no sensor is armed except possibly the current one, and
  none at all between \<open>timer_stop\<close> and \<open>ping_timer\<close>.
\<close>

definition bounds_inv :: "pc \<times> state \<Rightarrow> bool" where
  "bounds_inv c =
     (case c of (p, s) \<Rightarrow>
        length (pingTimer s) = NUM_SENSORS \<and> length (data s) = NUM_SENSORS
        \<and> currentSensor s < NUM_SENSORS
        \<and> (case p of Check i \<Rightarrow> i < NUM_SENSORS | Advance i \<Rightarrow> i < NUM_SENSORS
             | MaybeReport i \<Rightarrow> i < NUM_SENSORS | TimerStop i \<Rightarrow> i < NUM_SENSORS
             | SetCurrent i \<Rightarrow> i < NUM_SENSORS | ResetData i \<Rightarrow> i < NUM_SENSORS
             | PingTimer i \<Rightarrow> i < NUM_SENSORS | Actuate \<Rightarrow> True))"

definition armed_inv :: "pc \<times> state \<Rightarrow> bool" where
  "armed_inv c =
     (case c of (p, s) \<Rightarrow>
        (armed s = {} \<or> armed s = {currentSensor s})
        \<and> (case p of SetCurrent i \<Rightarrow> armed s = {} | ResetData i \<Rightarrow> armed s = {}
             | PingTimer i \<Rightarrow> armed s = {} | _ \<Rightarrow> True))"

text \<open>
  The sensors whose deadline a pass of \<open>loop\<close> finds due, in the order of the tests;
  the deadlines found due that a trace records, with the clock reading of each; and the
  sensors armed in a trace, in order.
\<close>

definition due :: "inputs \<Rightarrow> state \<Rightarrow> nat list" where
  "due inp s = filter (\<lambda>i. pingTimer s ! i \<le> millis inp i) [0..<NUM_SENSORS]"

fun fired :: "event list \<Rightarrow> (nat \<times> ulong) list" where
  "fired [] = []"
| "fired (Fire i t # es) = (i, t) # fired es"
| "fired (e # es) = fired es"

fun arms :: "event list \<Rightarrow> nat list" where
  "arms [] = []"
| "arms (Arm i # es) = i # arms es"
| "arms (e # es) = arms es"

text \<open>
  Nominal timing: the three tests of one pass read the same clock value, from one pass
  to the next the clock stands still or moves on by one millisecond (no deadline is
  skipped), and the clock is not about to wrap around. The first argument is the clock
  reading before the first action (that of \<open>setup\<close>).
\<close>

fun nominal :: "ulong \<Rightarrow> action list \<Rightarrow> bool" where
  "nominal t [] = True"
| "nominal t (Irq r # acts) = nominal t acts"
| "nominal t (Loop inp # acts) =
     (millis inp 1 = millis inp 0 \<and> millis inp 2 = millis inp 0
      \<and> (millis inp 0 = t \<or> millis inp 0 = t + 1) \<and> t \<le> 0xFFFFFF00
      \<and> nominal (millis inp 0) acts)"

text \<open>\<open>n\<close> passes of \<open>loop\<close>, one per millisecond from \<open>t\<close> on.\<close>

fun ticks :: "nat \<Rightarrow> ulong \<Rightarrow> action list" where
  "ticks n t = (if n = 0 then [] else Loop (steady t) # ticks (n - 1) (t + 1))"

declare ticks.simps [simp del]

text \<open>
  The round robin as the design describes it: slot \<open>k\<close> belongs to sensor \<open>k mod 3\<close>
  and opens at \<open>b + k * PING_INTERVAL\<close>; the report precedes every slot of sensor 0
  but the first. \<open>phase_deadlines b n\<close> are the deadlines of the three sensors once
  \<open>n\<close> slots have been opened.
\<close>

definition slot_events :: "ulong \<Rightarrow> nat \<Rightarrow> event list" where
  "slot_events b k =
     Fire (k mod 3) (b + of_nat (k * PING_INTERVAL))
     # (if k mod 3 = 0 \<and> 0 < k then [Report] else [])
     @ [Stop ((k - 1) mod 3), Reset (k mod 3), Arm (k mod 3)]"

definition nominal_trace :: "ulong \<Rightarrow> nat \<Rightarrow> event list" where
  "nominal_trace b n = concat (map (slot_events b) [0..<n])"

definition phase_deadlines :: "nat \<Rightarrow> nat \<Rightarrow> nat list" where
  "phase_deadlines b n =
     (let d = b + 33 * n
      in if n mod 3 = 0 then [d, d + 33, d + 66]
         else if n mod 3 = 1 then [d + 66, d, d + 33]
         else [d + 33, d + 66, d])"

definition nominal_inv :: "nat \<Rightarrow> nat \<Rightarrow> ulong \<Rightarrow> state \<Rightarrow> bool" where
  "nominal_inv b n t s =
     (pingTimer s = map of_nat (phase_deadlines b n)
      \<and> currentSensor s = (n - 1) mod 3
      \<and> trace s = nominal_trace (of_nat b) n
      \<and> unat t < b + 33 * n \<and> b + 33 * n \<le> unat t + 75
      \<and> (Report \<in> set (trace s) \<or> serial s = []))"

text \<open>
  The last event of a trace is the arming of the current sensor (and before the first
  event the current sensor is sensor 0).
\<close>

definition last_arm_inv :: "state \<Rightarrow> bool" where
  "last_arm_inv s =
     (if trace s = [] then currentSensor s = 0 else last (trace s) = Arm (currentSensor s))"

text \<open>A run without its motor outputs, which the scheduler never reads.\<close>

fun act_sched :: "action \<Rightarrow> state \<Rightarrow> state" where
  "act_sched (Loop inp) s = sched inp s"
| "act_sched (Irq r) s = echoCheck r s"

text \<open>
  Inputs whose command lines in \<open>hs\<close> are high and all others low, and the events of the
  transition of sensor \<open>i\<close> made while \<open>prev\<close> is the current sensor, lines 108 to 116.
\<close>

definition pins_high :: "pin list \<Rightarrow> inputs" where
  "pins_high hs = \<lparr>millis = (\<lambda>_. 0), digitalRead = (\<lambda>p. if p \<in> set hs then HIGH else LOW)\<rparr>"

definition slot_of :: "inputs \<Rightarrow> nat \<times> nat \<Rightarrow> event list" where
  "slot_of inp pi =
     (case pi of (prev, i) \<Rightarrow>
        Fire i (millis inp i) # (if i = 0 \<and> prev = 2 then [Report] else [])
        @ [Stop prev, Reset i, Arm i])"

section \<open>Basic facts\<close>

lemma upt_0_3: "[0..<3] = [0, 1, 2]"
  by (simp add: upt_rec)

lemma upt_1_3: "[Suc 0..<3] = [1, 2]"
  by (simp add: upt_rec)

lemma upt_small:
  "[0..<1] = [0]" "[0..<2] = [0, 1]" "[0..<4] = [0, 1, 2, 3]"
  by (simp_all add: upt_rec)

lemma setup_car_eq:
  "setup_car t = \<lparr>pingTimer = [t + 75, t + 108, t + 141], data = [0, 0, 0],
     currentSensor = 0, armed = {}, serial = [],
     analog_out = (\<lambda>_. 0), digital_out = (\<lambda>_. LOW), trace = []\<rparr>"
  by (simp add: setup_car_def power_on_def NUM_SENSORS_def PING_INTERVAL_def set_start_def
      upt_0_3 upt_1_3 numeral_3_eq_3)

lemma writeDistanceData_eq:
  "writeDistanceData s =
     s\<lparr>serial := serial s @ report_line (data s), trace := trace s @ [Report]\<rparr>"
  by (simp add: writeDistanceData_def NUM_SENSORS_def upt_0_3 print_field_def Serial_print_def
      Serial_println_def report_line_def)

lemma transition_eq:
  "transition i t s =
     s\<lparr>pingTimer := (pingTimer s)[i := pingTimer s ! i + 99],
       data := (data s)[i := 0],
       currentSensor := i,
       armed := insert i (armed s - {currentSensor s}),
       serial := (if i = 0 \<and> currentSensor s = 2 then serial s @ report_line (data s)
                  else serial s),
       trace := trace s @ [Fire i t] @ (if i = 0 \<and> currentSensor s = 2 then [Report] else [])
                @ [Stop (currentSensor s), Reset i, Arm i]\<rparr>"
  by (simp add: transition_def ping_timer_def reset_data_def set_current_def timer_stop_def
      report_if_cycle_def advance_def fire_def writeDistanceData_eq NUM_SENSORS_def
      PING_INTERVAL_def)

lemma check_sensor_eq:
  "check_sensor inp i s =
     (if pingTimer s ! i \<le> millis inp i then
        s\<lparr>pingTimer := (pingTimer s)[i := pingTimer s ! i + 99],
          data := (data s)[i := 0],
          currentSensor := i,
          armed := insert i (armed s - {currentSensor s}),
          serial := (if i = 0 \<and> currentSensor s = 2 then serial s @ report_line (data s)
                     else serial s),
          trace := trace s @ [Fire i (millis inp i)]
                   @ (if i = 0 \<and> currentSensor s = 2 then [Report] else [])
                   @ [Stop (currentSensor s), Reset i, Arm i]\<rparr>
      else s)"
  by (simp add: check_sensor_def transition_eq)

lemma sched_eq:
  "sched inp s = check_sensor inp 2 (check_sensor inp 1 (check_sensor inp 0 s))"
  by (simp add: sched_def NUM_SENSORS_def upt_0_3)

lemma actuate_eq:
  "actuate inp s =
     s\<lparr>analog_out := analog_out (actuate inp s), digital_out := digital_out (actuate inp s)\<rparr>"
  by (simp add: actuate_def update_turn_def update_speed_def writeSpeedData_def
      writeTurnData_def analogWrite_def digitalWrite_def Let_def)

lemma actuate_fields [simp]:
  "pingTimer (actuate inp s) = pingTimer s"
  "data (actuate inp s) = data s"
  "currentSensor (actuate inp s) = currentSensor s"
  "armed (actuate inp s) = armed s"
  "serial (actuate inp s) = serial s"
  "trace (actuate inp s) = trace s"
  by (subst actuate_eq, simp)+

lemma loop_fields [simp]:
  "pingTimer (loop inp s) = pingTimer (sched inp s)"
  "data (loop inp s) = data (sched inp s)"
  "currentSensor (loop inp s) = currentSensor (sched inp s)"
  "armed (loop inp s) = armed (sched inp s)"
  "serial (loop inp s) = serial (sched inp s)"
  "trace (loop inp s) = trace (sched inp s)"
  by (simp_all add: loop_def)

lemma echoCheck_fields [simp]:
  "pingTimer (echoCheck r s) = pingTimer s"
  "currentSensor (echoCheck r s) = currentSensor s"
  "serial (echoCheck r s) = serial s"
  "trace (echoCheck r s) = trace s"
  by (simp_all add: echoCheck_def Let_def)

lemma report_if_cycle_fields:
  "armed (report_if_cycle i s) = armed s"
  "currentSensor (report_if_cycle i s) = currentSensor s"
  by (simp_all add: report_if_cycle_def writeDistanceData_eq)

lemma run_Cons [simp]: "run (a # acts) s = run acts (act a s)"
  by (simp add: run_def)

lemma run_Nil [simp]: "run [] s = s"
  by (simp add: run_def)

lemma steady_millis [simp]: "millis (steady t) i = t"
  by (simp add: steady_def)

lemma fired_append [simp]: "fired (xs @ ys) = fired xs @ fired ys"
  by (induction xs rule: fired.induct) simp_all

lemma arms_append [simp]: "arms (xs @ ys) = arms xs @ arms ys"
  by (induction xs rule: arms.induct) simp_all

text \<open>
  The motor outputs do not influence the scheduler: what a run does to the timers, the
  readings, the serial link and the trace can be computed without them.
\<close>

lemma check_sensor_outputs:
  "check_sensor inp i (s\<lparr>analog_out := a, digital_out := d\<rparr>)
     = (check_sensor inp i s)\<lparr>analog_out := a, digital_out := d\<rparr>"
  by (simp add: check_sensor_eq)

lemma sched_outputs:
  "sched inp (s\<lparr>analog_out := a, digital_out := d\<rparr>)
     = (sched inp s)\<lparr>analog_out := a, digital_out := d\<rparr>"
  by (simp add: sched_eq check_sensor_outputs)

lemma echoCheck_outputs:
  "echoCheck r (s\<lparr>analog_out := a, digital_out := d\<rparr>)
     = (echoCheck r s)\<lparr>analog_out := a, digital_out := d\<rparr>"
  by (simp add: echoCheck_def Let_def)

lemma act_outputs:
  "\<exists>a' d'. act x (s\<lparr>analog_out := a, digital_out := d\<rparr>)
     = (act_sched x s)\<lparr>analog_out := a', digital_out := d'\<rparr>"
proof (cases x)
  case (Loop inp)
  have "loop inp (s\<lparr>analog_out := a, digital_out := d\<rparr>)
      = (sched inp s)\<lparr>analog_out := analog_out (loop inp (s\<lparr>analog_out := a, digital_out := d\<rparr>)),
          digital_out := digital_out (loop inp (s\<lparr>analog_out := a, digital_out := d\<rparr>))\<rparr>"
    unfolding loop_def by (subst actuate_eq) (simp add: sched_outputs)
  with Loop show ?thesis by auto
next
  case (Irq r)
  then show ?thesis by (auto simp: echoCheck_outputs)
qed

lemma run_outputs:
  "\<exists>a' d'. run acts (s\<lparr>analog_out := a, digital_out := d\<rparr>)
     = (fold act_sched acts s)\<lparr>analog_out := a', digital_out := d'\<rparr>"
proof (induction acts arbitrary: s a d)
  case Nil
  then show ?case by auto
next
  case (Cons x acts)
  obtain a' d' where "act x (s\<lparr>analog_out := a, digital_out := d\<rparr>)
      = (act_sched x s)\<lparr>analog_out := a', digital_out := d'\<rparr>"
    using act_outputs by blast
  moreover obtain a'' d'' where "run acts ((act_sched x s)\<lparr>analog_out := a', digital_out := d'\<rparr>)
      = (fold act_sched acts (act_sched x s))\<lparr>analog_out := a'', digital_out := d''\<rparr>"
    using Cons.IH by blast
  ultimately have "run (x # acts) (s\<lparr>analog_out := a, digital_out := d\<rparr>)
      = (fold act_sched (x # acts) s)\<lparr>analog_out := a'', digital_out := d''\<rparr>"
    by simp
  then show ?case by blast
qed

lemma run_sched_fields:
  "trace (run acts s) = trace (fold act_sched acts s)"
  "serial (run acts s) = serial (fold act_sched acts s)"
  "currentSensor (run acts s) = currentSensor (fold act_sched acts s)"
  "pingTimer (run acts s) = pingTimer (fold act_sched acts s)"
  "data (run acts s) = data (fold act_sched acts s)"
  "armed (run acts s) = armed (fold act_sched acts s)"
proof -
  obtain a' d' where "run acts (s\<lparr>analog_out := analog_out s, digital_out := digital_out s\<rparr>)
      = (fold act_sched acts s)\<lparr>analog_out := a', digital_out := d'\<rparr>"
    using run_outputs by blast
  then have *: "run acts s = (fold act_sched acts s)\<lparr>analog_out := a', digital_out := d'\<rparr>"
    by simp
  show "trace (run acts s) = trace (fold act_sched acts s)"
    "serial (run acts s) = serial (fold act_sched acts s)"
    "currentSensor (run acts s) = currentSensor (fold act_sched acts s)"
    "pingTimer (run acts s) = pingTimer (fold act_sched acts s)"
    "data (run acts s) = data (fold act_sched acts s)"
    "armed (run acts s) = armed (fold act_sched acts s)"
    by (simp_all add: *)
qed

lemma times_2_55_values:
  "times_2_55 0 = 0" "times_2_55 33 = 84" "times_2_55 67 = 170" "times_2_55 100 = 255"
  by (simp_all add: times_2_55_def round24_def scale_2_55_mantissa_def bits.simps Let_def)

section \<open>Decoding the command buses\<close>

lemma le7_cases: "(c::uint) \<le> 7 \<Longrightarrow> c \<in> {0, 1, 2, 3, 4, 5, 6, 7}"
proof -
  assume "c \<le> 7"
  then have "unat c \<le> 7" by (simp add: word_le_nat_alt)
  then have k: "unat c \<in> {0, 1, 2, 3, 4, 5, 6, 7}" by auto
  have *: "\<And>k. unat c = k \<Longrightarrow> c = word_of_nat k" by auto
  from k show ?thesis by (auto dest!: *)
qed

lemma read_inputs_le7: "readSpeedInput inp \<le> 7" "readTurnInput inp \<le> 7"
  by (simp_all add: readSpeedInput_def readTurnInput_def)

lemma update_speed_decoded:
  "update_speed inp s =
     writeSpeedData (if bit (readSpeedInput inp) 2 then 1 else 0)
       ([0, 33, 67, 100] ! unat (readSpeedInput inp AND 3)) s"
  using le7_cases [OF read_inputs_le7(1) [of inp]]
  by (auto simp: update_speed_def Let_def switch_percent_def)

lemma update_turn_decoded:
  "update_turn inp s =
     writeTurnData (if bit (readTurnInput inp) 2 then 1 else 0)
       ([0, 33, 67, 100] ! unat (readTurnInput inp AND 3)) s"
  using le7_cases [OF read_inputs_le7(2) [of inp]]
  by (auto simp: update_turn_def Let_def switch_percent_def)

lemma speed_bits:
  "bit (readSpeedInput inp) 2 = (digitalRead inp SPEED_INPUT2 = HIGH)
   \<and> readSpeedInput inp AND 3 =
       (if digitalRead inp SPEED_INPUT1 = HIGH then 2 else 0)
       + (if digitalRead inp SPEED_INPUT0 = HIGH then 1 else 0)"
  by (simp add: readSpeedInput_def)

lemma turn_bits:
  "bit (readTurnInput inp) 2 = (digitalRead inp TURN_INPUT2 = HIGH)
   \<and> readTurnInput inp AND 3 =
       (if digitalRead inp TURN_INPUT1 = HIGH then 2 else 0)
       + (if digitalRead inp TURN_INPUT0 = HIGH then 1 else 0)"
  by (simp add: readTurnInput_def)

text \<open>
  Claim C3. Each bus yields a command code from 0 to 7 whose bit 2 is the level of line 2
  and whose low two bits are the levels of lines 1 and 0. \<open>loop\<close> passes to the driver
  of each actuator, after the scheduler, the direction \<open>c >> 2\<close>, which is bit 2 of the
  code \<open>c\<close>, and the percentage that the table 0, 33, 67, 100 gives for the low two bits
  of \<open>c\<close>; for every code from 0 to 7 that percentage is what the \<open>switch\<close> computes,
  and it does not change when bit 2 is flipped.
\<close>

theorem command_decode:
  "readSpeedInput inp \<le> 7 \<and> readTurnInput inp \<le> 7
   \<and> bit (readSpeedInput inp) 2 = (digitalRead inp SPEED_INPUT2 = HIGH)
   \<and> readSpeedInput inp AND 3 =
       (if digitalRead inp SPEED_INPUT1 = HIGH then 2 else 0)
       + (if digitalRead inp SPEED_INPUT0 = HIGH then 1 else 0)
   \<and> bit (readTurnInput inp) 2 = (digitalRead inp TURN_INPUT2 = HIGH)
   \<and> readTurnInput inp AND 3 =
       (if digitalRead inp TURN_INPUT1 = HIGH then 2 else 0)
       + (if digitalRead inp TURN_INPUT0 = HIGH then 1 else 0)
   \<and> update_speed inp s =
       writeSpeedData (if bit (readSpeedInput inp) 2 then 1 else 0)
         ([0, 33, 67, 100] ! unat (readSpeedInput inp AND 3)) s
   \<and> update_turn inp s =
       writeTurnData (if bit (readTurnInput inp) 2 then 1 else 0)
         ([0, 33, 67, 100] ! unat (readTurnInput inp AND 3)) s
   \<and> loop inp s = update_turn inp (update_speed inp (sched inp s))
   \<and> (c \<le> 7 \<longrightarrow>
        switch_percent c = [0, 33, 67, 100] ! unat (c AND 3)
        \<and> switch_percent (c XOR 4) = switch_percent c
        \<and> drop_bit 2 c = (if bit c 2 then 1 else 0))"
proof -
  have "c \<le> 7 \<longrightarrow>
        switch_percent c = [0, 33, 67, 100] ! unat (c AND 3)
        \<and> switch_percent (c XOR 4) = switch_percent c
        \<and> drop_bit 2 c = (if bit c 2 then 1 else 0)"
    by (auto dest!: le7_cases simp: switch_percent_def)
  moreover have "loop inp s = update_turn inp (update_speed inp (sched inp s))"
    by (simp add: loop_def actuate_def)
  ultimately show ?thesis
    using speed_bits [of inp] turn_bits [of inp] read_inputs_le7 [of inp]
      update_speed_decoded [of inp s] update_turn_decoded [of inp s]
    by blast
qed

theorem command_decode_witness:
  "readSpeedInput (pins_high [A0, A2]) = 5 \<and> readTurnInput (pins_high [A0, A2]) = 0
   \<and> (5::uint) \<le> 7 \<and> switch_percent 5 = 33 \<and> switch_percent 1 = switch_percent 5
   \<and> drop_bit 2 (5::uint) = 1
   \<and> update_speed (pins_high [A0, A2]) (setup_car 0) = writeSpeedData 1 33 (setup_car 0)
   \<and> update_turn (pins_high [A0, A2]) (setup_car 0) = writeTurnData 0 0 (setup_car 0)
   \<and> analog_out (loop (pins_high [A0, A2]) (setup_car 0)) SPEED_MOTOR_PIN2 = 84
   \<and> digital_out (loop (pins_high [A0, A2]) (setup_car 0)) SPEED_MOTOR_PIN1 = LOW
   \<and> digital_out (loop (pins_high [A0, A2]) (setup_car 0)) SPEED_MOTOR_PIN0 = HIGH
   \<and> analog_out (loop (pins_high [A0, A2]) (setup_car 0)) TURN_MOTOR_PIN2 = 0
   \<and> digital_out (loop (pins_high [A0, A2]) (setup_car 0)) TURN_MOTOR_PIN1 = LOW
   \<and> digital_out (loop (pins_high [A0, A2]) (setup_car 0)) TURN_MOTOR_PIN0 = HIGH"
proof -
  have r: "readSpeedInput (pins_high [A0, A2]) = 5" "readTurnInput (pins_high [A0, A2]) = 0"
    by (simp_all add: readSpeedInput_def readTurnInput_def pins_high_def SPEED_INPUT2_def
        SPEED_INPUT1_def SPEED_INPUT0_def TURN_INPUT2_def TURN_INPUT1_def TURN_INPUT0_def)
  from command_decode [of "pins_high [A0, A2]" "setup_car 0" 5]
  have u: "update_speed (pins_high [A0, A2]) (setup_car 0) = writeSpeedData 1 33 (setup_car 0)"
      "update_turn (pins_high [A0, A2]) (setup_car 0) = writeTurnData 0 0 (setup_car 0)"
      "switch_percent 5 = 33" "switch_percent 1 = switch_percent 5" "drop_bit 2 (5::uint) = 1"
    by (simp_all add: r)
  from command_decode [of "pins_high [A0, A2]" "setup_car 0" 5]
  have a: "loop (pins_high [A0, A2]) (setup_car 0)
      = update_turn (pins_high [A0, A2])
          (update_speed (pins_high [A0, A2]) (sched (pins_high [A0, A2]) (setup_car 0)))"
    by blast
  from command_decode [of "pins_high [A0, A2]" "sched (pins_high [A0, A2]) (setup_car 0)" 5]
  have b: "update_speed (pins_high [A0, A2]) (sched (pins_high [A0, A2]) (setup_car 0))
      = writeSpeedData 1 33 (sched (pins_high [A0, A2]) (setup_car 0))"
    by (simp add: r)
  from command_decode [of "pins_high [A0, A2]"
      "writeSpeedData 1 33 (sched (pins_high [A0, A2]) (setup_car 0))" 5]
  have c: "update_turn (pins_high [A0, A2])
        (writeSpeedData 1 33 (sched (pins_high [A0, A2]) (setup_car 0)))
      = writeTurnData 0 0 (writeSpeedData 1 33 (sched (pins_high [A0, A2]) (setup_car 0)))"
    by (simp add: r)
  have l: "loop (pins_high [A0, A2]) (setup_car 0)
      = writeTurnData 0 0 (writeSpeedData 1 33 (sched (pins_high [A0, A2]) (setup_car 0)))"
    by (simp only: a b c)
  show ?thesis
    unfolding l
    by (simp add: r u)
      (simp add: writeTurnData_def writeSpeedData_def analogWrite_def digitalWrite_def Let_def
        times_2_55_values MOVE_FORWARD_def MOVE_BACKWARD_def TURN_LEFT_def TURN_RIGHT_def
        SPEED_MOTOR_PIN2_def SPEED_MOTOR_PIN1_def SPEED_MOTOR_PIN0_def
        TURN_MOTOR_PIN2_def TURN_MOTOR_PIN1_def TURN_MOTOR_PIN0_def)
qed

section \<open>Driving the motors\<close>

text \<open>
  Claim C4. The two direction lines written by \<open>writeSpeedData\<close> and \<open>writeTurnData\<close>
  (line 1, line 0): direction 0 (forward, right turn) and direction 1 (backward, left
  turn) each select their own pattern with one line high, and every other direction
  value drives both lines low.
\<close>

theorem direction_patterns:
  "(digital_out (writeSpeedData d p s) SPEED_MOTOR_PIN1,
    digital_out (writeSpeedData d p s) SPEED_MOTOR_PIN0) =
     (if d = 0 then (HIGH, LOW) else if d = 1 then (LOW, HIGH) else (LOW, LOW))
   \<and> (digital_out (writeTurnData d p s) TURN_MOTOR_PIN1,
      digital_out (writeTurnData d p s) TURN_MOTOR_PIN0) =
     (if d = 0 then (LOW, HIGH) else if d = 1 then (HIGH, LOW) else (LOW, LOW))"
  by (simp add: writeSpeedData_def writeTurnData_def digitalWrite_def analogWrite_def Let_def
      MOVE_FORWARD_def MOVE_BACKWARD_def TURN_LEFT_def TURN_RIGHT_def
      SPEED_MOTOR_PIN1_def SPEED_MOTOR_PIN0_def TURN_MOTOR_PIN1_def TURN_MOTOR_PIN0_def)

text \<open>The constant of the product is the binary32 number nearest to 2.55.\<close>

lemma scale_2_55_mantissa_nearest:
  "2 ^ 23 \<le> scale_2_55_mantissa \<and> scale_2_55_mantissa < 2 ^ 24
   \<and> 2 * \<bar>int scale_2_55_mantissa * 100 - 255 * 2 ^ 22\<bar> \<le> 100"
  by (simp add: scale_2_55_mantissa_def)

lemma analog_writeSpeedData:
  "analog_out (writeSpeedData d p s) SPEED_MOTOR_PIN2 = times_2_55 p"
  by (simp add: writeSpeedData_def digitalWrite_def analogWrite_def Let_def)

lemma analog_writeTurnData:
  "analog_out (writeTurnData d p s) TURN_MOTOR_PIN2 = times_2_55 p"
  by (simp add: writeTurnData_def digitalWrite_def analogWrite_def Let_def)

text \<open>
  Claim C9. For the percentages 0, 33, 67 and 100 the duty value written to the PWM pin
  of either actuator is 0, 84, 170 and 255: the percentage times 2.55 with the fraction
  dropped.
\<close>

theorem duty_values:
  "map (\<lambda>p. analog_out (writeSpeedData d p s) SPEED_MOTOR_PIN2) [0, 33, 67, 100] = [0, 84, 170, 255]
   \<and> map (\<lambda>p. analog_out (writeTurnData d p s) TURN_MOTOR_PIN2) [0, 33, 67, 100] = [0, 84, 170, 255]
   \<and> map (\<lambda>p. (int p * 255) div 100) [0, 33, 67, 100] = [0, 84, 170, 255]"
  by (simp add: analog_writeSpeedData analog_writeTurnData times_2_55_values)

section \<open>The completion handler\<close>

text \<open>
  Claim C5. When \<open>check_timer()\<close> answers false, \<open>echoCheck\<close> leaves \<open>data\<close> as it is;
  when it answers true the computed distance is stored at index \<open>currentSensor\<close>; in
  both cases every other entry keeps its value.
\<close>

theorem echoCheck_guard:
  "(\<not> check_timer r \<longrightarrow> data (echoCheck r s) = data s)
   \<and> (check_timer r \<longrightarrow>
        data (echoCheck r s) = (data s)[currentSensor s := ping_result r div US_ROUNDTRIP_CM r])
   \<and> (\<forall>j. j \<noteq> currentSensor s \<longrightarrow> data (echoCheck r s) ! j = data s ! j)"
  by (simp add: echoCheck_def Let_def)

theorem echoCheck_guard_witness:
  "\<not> check_timer (echo_reply False 570)
   \<and> data (echoCheck (echo_reply False 570) (setup_car 0)) = [0, 0, 0]
   \<and> check_timer (echo_reply True 570)
   \<and> data (echoCheck (echo_reply True 570) (setup_car 0)) = [10, 0, 0]
   \<and> data (echoCheck (echo_reply True 570) (setup_car 0)) ! 1 = data (setup_car 0) ! 1"
  using echoCheck_guard [of "echo_reply False 570" "setup_car 0"]
    echoCheck_guard [of "echo_reply True 570" "setup_car 0"]
  by (simp add: echo_reply_def setup_car_eq)

section \<open>The serial link\<close>

text \<open>The digits written for a number denote that number.\<close>

lemma digit_char_value: "d < 10 \<Longrightarrow> of_char (digit_char d) = 48 + d"
proof -
  assume "d < 10"
  then have "d \<in> {0, 1, 2, 3, 4, 5, 6, 7, 8, 9}" by auto
  then show ?thesis by (auto simp: digit_char_def)
qed

lemma decimal_value_snoc: "decimal_value (cs @ [c]) = 10 * decimal_value cs + (of_char c - 48)"
  by (simp add: decimal_value_def)

lemma decimal_value_print_number: "decimal_value (print_number n) = n"
proof (induction n rule: print_number.induct)
  case (1 n)
  show ?case
  proof (cases "n < 10")
    case True
    then show ?thesis
      by (subst print_number.simps) (simp add: decimal_value_def digit_char_value)
  next
    case False
    with 1 have "decimal_value (print_number (n div 10)) = n div 10" by simp
    with False show ?thesis
      by (subst print_number.simps) (simp add: decimal_value_snoc digit_char_value)
  qed
qed

lemma main_step_serial:
  "serial (snd (main_step inp (p, s))) = serial s
   \<or> serial (snd (main_step inp (p, s))) = serial s @ report_line (data s)"
proof (cases p)
  case (MaybeReport i)
  then show ?thesis by (simp add: report_if_cycle_def writeDistanceData_eq)
next
  case Actuate
  then show ?thesis by simp
qed (simp_all add: fire_def advance_def timer_stop_def set_current_def reset_data_def
     ping_timer_def)

lemma small_step_serial:
  "serial (snd (small_step a c)) = serial (snd c)
   \<or> (\<exists>d. serial (snd (small_step a c)) = serial (snd c) @ report_line d)"
proof (cases c)
  case (Pair p s)
  show ?thesis
  proof (cases a)
    case (Main inp)
    with Pair main_step_serial [of inp p s] show ?thesis by auto
  next
    case (Interrupt r)
    with Pair show ?thesis by simp
  qed
qed

lemma small_run_serial:
  "\<exists>ds. serial (snd (small_run steps c)) = serial (snd c) @ concat (map report_line ds)"
proof (induction steps arbitrary: c)
  case Nil
  have "serial (snd (small_run [] c)) = serial (snd c) @ concat (map report_line [])"
    by (simp add: small_run_def)
  then show ?case by blast
next
  case (Cons a steps)
  obtain ds where ds: "serial (snd (small_run steps (small_step a c)))
      = serial (snd (small_step a c)) @ concat (map report_line ds)"
    using Cons.IH by blast
  have run: "small_run (a # steps) c = small_run steps (small_step a c)"
    by (simp add: small_run_def)
  from small_step_serial [of a c] show ?case
  proof
    assume "serial (snd (small_step a c)) = serial (snd c)"
    with ds run show ?thesis by auto
  next
    assume "\<exists>d. serial (snd (small_step a c)) = serial (snd c) @ report_line d"
    then obtain d where "serial (snd (small_step a c)) = serial (snd c) @ report_line d" ..
    with ds run have "serial (snd (small_run (a # steps) c))
        = serial (snd c) @ concat (map report_line (d # ds))" by simp
    then show ?thesis by blast
  qed
qed

text \<open>
  Claim C7, as stated: the line ends with a line feed alone, so that three readings of 0
  give \<open>0\t0\t0\t\n\<close>. It does not: \<open>Serial.println()\<close> ends the line with a carriage
  return and a line feed.
\<close>

theorem report_line_counterexample:
  "serial (writeDistanceData (setup_car 0))
     \<noteq> [CHR ''0'', CHR 0x09, CHR ''0'', CHR 0x09, CHR ''0'', CHR 0x09, CHR 0x0A]"
  by (simp add: writeDistanceData_eq setup_car_eq report_line_def print_number.simps digit_char_def)

text \<open>
  Claim C7, amended. Every call of \<open>writeDistanceData\<close> appends to the serial link the
  three entries of \<open>data\<close> in index order, each in decimal and followed by a tab, and
  then a carriage return and a line feed; three readings of 0 give
  \<open>0\t0\t0\t\r\n\<close>; and whatever the program has written to the link at any point of
  any execution, interrupts included, is a sequence of such lines.
\<close>

theorem serial_lines:
  "serial (writeDistanceData s) =
     serial s @ print_number (unat (data s ! 0)) @ [CHR 0x09]
       @ print_number (unat (data s ! 1)) @ [CHR 0x09]
       @ print_number (unat (data s ! 2)) @ [CHR 0x09] @ [CHR 0x0D, CHR 0x0A]
   \<and> report_line [0, 0, 0]
       = [CHR ''0'', CHR 0x09, CHR ''0'', CHR 0x09, CHR ''0'', CHR 0x09, CHR 0x0D, CHR 0x0A]
   \<and> (\<exists>ds. serial (snd (small_run steps (Check 0, setup_car t))) = concat (map report_line ds))"
proof -
  have "\<exists>ds. serial (snd (small_run steps (Check 0, setup_car t)))
      = serial (snd (Check 0, setup_car t)) @ concat (map report_line ds)"
    by (rule small_run_serial)
  then have "\<exists>ds. serial (snd (small_run steps (Check 0, setup_car t)))
      = concat (map report_line ds)"
    by (simp add: setup_car_eq)
  then show ?thesis
    by (simp add: writeDistanceData_eq report_line_def print_number.simps digit_char_def)
qed

section \<open>The program statement by statement\<close>

text \<open>
  A pass of \<open>loop\<close> is what the statement-level program does from the first test back
  to the first test when no interrupt falls in between.
\<close>

lemma small_run_append: "small_run (xs @ ys) c = small_run ys (small_run xs c)"
  by (simp add: small_run_def)

lemma small_run_check:
  "\<exists>k. small_run (replicate k (Main inp)) (Check i, s) = (next_sensor i, check_sensor inp i s)"
proof (cases "pingTimer s ! i \<le> millis inp i")
  case True
  then have "small_run (replicate 7 (Main inp)) (Check i, s)
      = (next_sensor i, check_sensor inp i s)"
    by (simp add: small_run_def eval_nat_numeral check_sensor_def transition_def)
  then show ?thesis ..
next
  case False
  then have "small_run (replicate 1 (Main inp)) (Check i, s)
      = (next_sensor i, check_sensor inp i s)"
    by (simp add: small_run_def check_sensor_def)
  then show ?thesis ..
qed

lemma small_run_loop:
  "\<exists>k. small_run (replicate k (Main inp)) (Check 0, s) = (Check 0, loop inp s)"
proof -
  obtain k0 where k0: "small_run (replicate k0 (Main inp)) (Check 0, s)
      = (Check 1, check_sensor inp 0 s)"
    using small_run_check [of inp 0 s] by (auto simp: next_sensor_def NUM_SENSORS_def)
  obtain k1 where k1: "small_run (replicate k1 (Main inp)) (Check 1, check_sensor inp 0 s)
      = (Check 2, check_sensor inp 1 (check_sensor inp 0 s))"
    using small_run_check [of inp 1 "check_sensor inp 0 s"]
    by (auto simp: next_sensor_def NUM_SENSORS_def numeral_2_eq_2)
  obtain k2 where k2: "small_run (replicate k2 (Main inp))
        (Check 2, check_sensor inp 1 (check_sensor inp 0 s))
      = (Actuate, sched inp s)"
    using small_run_check [of inp 2 "check_sensor inp 1 (check_sensor inp 0 s)"]
    by (auto simp: next_sensor_def NUM_SENSORS_def sched_eq)
  have "small_run (replicate (k0 + (k1 + (k2 + 1))) (Main inp)) (Check 0, s)
      = (Check 0, loop inp s)"
    unfolding replicate_add small_run_append k0 k1 k2
    by (simp add: small_run_def loop_def)
  then show ?thesis ..
qed

text \<open>Every array access of the program is in range.\<close>

lemma bounds_inv_main_step: "bounds_inv (p, s) \<Longrightarrow> bounds_inv (main_step inp (p, s))"
  by (cases p)
    (auto simp: bounds_inv_def next_sensor_def fire_def advance_def report_if_cycle_def
      writeDistanceData_eq timer_stop_def set_current_def reset_data_def ping_timer_def
      NUM_SENSORS_def)

lemma bounds_inv_small_step: "bounds_inv c \<Longrightarrow> bounds_inv (small_step a c)"
proof (cases c)
  case (Pair p s)
  assume inv: "bounds_inv c"
  show ?thesis
  proof (cases a)
    case (Main inp)
    with Pair inv bounds_inv_main_step [of p s inp] show ?thesis by simp
  next
    case (Interrupt r)
    with Pair inv show ?thesis
      by (simp add: bounds_inv_def echoCheck_def Let_def)
  qed
qed

lemma bounds_inv_small_run: "bounds_inv c \<Longrightarrow> bounds_inv (small_run steps c)"
  by (induction steps arbitrary: c) (simp_all add: small_run_def bounds_inv_small_step)

lemma bounds_inv_reachable: "bounds_inv (small_run steps (Check 0, setup_car t))"
  by (rule bounds_inv_small_run) (simp add: bounds_inv_def setup_car_eq NUM_SENSORS_def)

lemma armed_inv_main_step: "armed_inv (p, s) \<Longrightarrow> armed_inv (main_step inp (p, s))"
proof (cases p)
  case Actuate
  then show "armed_inv (p, s) \<Longrightarrow> armed_inv (main_step inp (p, s))"
    by (simp add: armed_inv_def)
next
  case (MaybeReport i)
  then show "armed_inv (p, s) \<Longrightarrow> armed_inv (main_step inp (p, s))"
    by (simp add: armed_inv_def report_if_cycle_fields)
next
  case (Check i)
  then show "armed_inv (p, s) \<Longrightarrow> armed_inv (main_step inp (p, s))"
    by (simp add: armed_inv_def fire_def next_sensor_def)
next
  case (PingTimer i)
  then show "armed_inv (p, s) \<Longrightarrow> armed_inv (main_step inp (p, s))"
    by (simp add: armed_inv_def ping_timer_def next_sensor_def)
qed (auto simp: armed_inv_def advance_def timer_stop_def set_current_def reset_data_def)

lemma armed_inv_small_step: "armed_inv c \<Longrightarrow> armed_inv (small_step a c)"
proof (cases c)
  case (Pair p s)
  assume inv: "armed_inv c"
  show ?thesis
  proof (cases a)
    case (Main inp)
    with Pair inv armed_inv_main_step [of p s inp] show ?thesis by simp
  next
    case (Interrupt r)
    with Pair inv show ?thesis
      by (auto simp: armed_inv_def echoCheck_def Let_def split: pc.splits)
  qed
qed

lemma armed_inv_small_run: "armed_inv c \<Longrightarrow> armed_inv (small_run steps c)"
  by (induction steps arbitrary: c) (simp_all add: small_run_def armed_inv_small_step)

lemma armed_inv_start: "armed_inv (Check 0, setup_car t)"
  by (simp add: armed_inv_def setup_car_eq)

text \<open>
  Claim C6. At every point of every execution of the program after \<open>setup\<close>, with
  interrupts between any two statements, at most one sensor is armed, and it is the
  current one; when \<open>ping_timer\<close> is about to arm a sensor none is armed, because
  \<open>timer_stop\<close> came first; and \<open>echoCheck\<close>, in any state, changes neither
  \<open>currentSensor\<close> nor \<open>pingTimer\<close> nor any entry of \<open>data\<close> other than that of
  the current sensor.
\<close>

theorem one_sensor_armed:
  "(armed (snd (small_run steps (Check 0, setup_car t))) = {}
     \<or> armed (snd (small_run steps (Check 0, setup_car t)))
        = {currentSensor (snd (small_run steps (Check 0, setup_car t)))})
   \<and> (\<forall>i. fst (small_run steps (Check 0, setup_car t)) = PingTimer i
         \<longrightarrow> armed (snd (small_run steps (Check 0, setup_car t))) = {})
   \<and> (\<forall>r s. currentSensor (echoCheck r s) = currentSensor s
         \<and> pingTimer (echoCheck r s) = pingTimer s
         \<and> (\<forall>j. j \<noteq> currentSensor s \<longrightarrow> data (echoCheck r s) ! j = data s ! j))"
proof -
  have "armed_inv (small_run steps (Check 0, setup_car t))"
    by (rule armed_inv_small_run [OF armed_inv_start])
  then show ?thesis
    by (cases "small_run steps (Check 0, setup_car t)")
      (auto simp: armed_inv_def echoCheck_def Let_def)
qed

theorem one_sensor_armed_witness:
  "fst (small_run [Main (steady 1200), Main (steady 1200), Interrupt (echo_reply True 570),
         Main (steady 1200), Main (steady 1200), Main (steady 1200), Main (steady 1200)]
        (Check 0, setup_car 1000)) = PingTimer 0
   \<and> armed (snd (small_run [Main (steady 1200), Main (steady 1200),
         Interrupt (echo_reply True 570),
         Main (steady 1200), Main (steady 1200), Main (steady 1200), Main (steady 1200)]
        (Check 0, setup_car 1000))) = {}
   \<and> 1 \<noteq> currentSensor (setup_car 1000)
   \<and> data (echoCheck (echo_reply True 570) (setup_car 1000)) ! 1 = data (setup_car 1000) ! 1"
  using one_sensor_armed [of "[Main (steady 1200), Main (steady 1200),
         Interrupt (echo_reply True 570),
         Main (steady 1200), Main (steady 1200), Main (steady 1200), Main (steady 1200)]" 1000]
  by (simp add: small_run_def setup_car_eq fire_def advance_def report_if_cycle_def
      timer_stop_def set_current_def reset_data_def echoCheck_def echo_reply_def NUM_SENSORS_def)

section \<open>Several deadlines due in one pass\<close>

text \<open>
  Claim C2, as stated: when several deadlines are due in one pass, the sensor with the
  lowest number is the current one at the end of the pass. It is not: with all three
  deadlines due, sensor 2 is.
\<close>

theorem lowest_due_counterexample:
  "due (steady 200) (setup_car 0) = [0, 1, 2]
   \<and> currentSensor (loop (steady 200) (setup_car 0)) \<noteq> hd (due (steady 200) (setup_car 0))"
  by (simp add: due_def NUM_SENSORS_def upt_0_3 sched_eq check_sensor_eq steady_def setup_car_eq)

lemma due_cases:
  "due inp s = filter (\<lambda>i. pingTimer s ! i \<le> millis inp i) [0, 1, 2]"
  by (simp add: due_def NUM_SENSORS_def upt_0_3)

lemma pass_current:
  "due inp s \<noteq> [] \<Longrightarrow> currentSensor (loop inp s) = last (due inp s)"
  by (auto simp: due_cases sched_eq check_sensor_eq)

lemma pass_armed:
  "due inp s \<noteq> [] \<Longrightarrow> armed s \<subseteq> {currentSensor s}
   \<Longrightarrow> armed (loop inp s) = {last (due inp s)}"
  by (auto simp: due_cases sched_eq check_sensor_eq)

lemma pass_trace:
  "trace (loop inp s)
     = trace s @ concat (map (slot_of inp) (zip (currentSensor s # due inp s) (due inp s)))"
  by (auto simp: due_cases sched_eq check_sensor_eq slot_of_def)

lemma pass_deadlines:
  assumes "length (pingTimer s) = NUM_SENSORS"
  shows "pingTimer (loop inp s)
     = map (\<lambda>i. if i \<in> set (due inp s) then pingTimer s ! i + of_nat (3 * PING_INTERVAL)
                 else pingTimer s ! i) [0..<NUM_SENSORS]"
proof -
  from assms obtain x y z where p: "pingTimer s = [x, y, z]"
    by (auto simp: NUM_SENSORS_def numeral_3_eq_3 length_Suc_conv)
  show ?thesis
    by (auto simp: due_cases sched_eq check_sensor_eq p NUM_SENSORS_def upt_0_3
        PING_INTERVAL_def)
qed

lemma pass_data:
  assumes "length (data s) = NUM_SENSORS"
  shows "data (loop inp s)
     = map (\<lambda>i. if i \<in> set (due inp s) then 0 else data s ! i) [0..<NUM_SENSORS]"
proof -
  from assms obtain x y z where p: "data s = [x, y, z]"
    by (auto simp: NUM_SENSORS_def numeral_3_eq_3 length_Suc_conv)
  show ?thesis
    by (auto simp: due_cases sched_eq check_sensor_eq p NUM_SENSORS_def upt_0_3)
qed

lemma fired_slots:
  "map fst (fired (concat (map (slot_of inp) (zip ps ds)))) = map snd (zip ps ds)"
  by (induction ps ds rule: list_induct2') (simp_all add: slot_of_def)

text \<open>
  Claim C2, amended. When one or more deadlines are due in a pass of \<open>loop\<close>, the due
  sensors are processed in increasing order of their number and the one with the highest
  number wins: it is the current sensor at the end of the pass. The request of every
  lower due sensor is superseded until its next deadline: the pass arms it and stops its
  timer again in the transition of the next due sensor, so that (if at most the current
  sensor was armed before) only the highest due sensor is armed after the pass, and the
  deadline of every due sensor has been moved on by three ping intervals and its reading
  reset to 0, while the sensors not due keep their deadline and reading.
\<close>

theorem highest_due_wins:
  assumes "due inp s \<noteq> []"
  shows "currentSensor (loop inp s) = last (due inp s)
       \<and> (\<exists>ev. trace (loop inp s) = trace s @ ev \<and> map fst (fired ev) = due inp s)
       \<and> trace (loop inp s)
           = trace s @ concat (map (slot_of inp) (zip (currentSensor s # due inp s) (due inp s)))
       \<and> (armed s \<subseteq> {currentSensor s} \<longrightarrow> armed (loop inp s) = {last (due inp s)})
       \<and> (length (pingTimer s) = NUM_SENSORS \<longrightarrow>
            pingTimer (loop inp s)
              = map (\<lambda>i. if i \<in> set (due inp s)
                          then pingTimer s ! i + of_nat (3 * PING_INTERVAL)
                          else pingTimer s ! i) [0..<NUM_SENSORS])
       \<and> (length (data s) = NUM_SENSORS \<longrightarrow>
            data (loop inp s)
              = map (\<lambda>i. if i \<in> set (due inp s) then 0 else data s ! i) [0..<NUM_SENSORS])"
proof -
  have "map fst (fired (concat (map (slot_of inp)
          (zip (currentSensor s # due inp s) (due inp s))))) = due inp s"
    by (simp add: fired_slots map_snd_zip_take)
  with pass_trace [of inp s]
  have "\<exists>ev. trace (loop inp s) = trace s @ ev \<and> map fst (fired ev) = due inp s"
    by blast
  with assms pass_current [of inp s] pass_armed [of inp s] pass_trace [of inp s]
    pass_deadlines [of s inp] pass_data [of s inp]
  show ?thesis by blast
qed

theorem highest_due_wins_witness:
  "due (steady 200) (setup_car 0) \<noteq> []
   \<and> currentSensor (loop (steady 200) (setup_car 0)) = 2
   \<and> armed (loop (steady 200) (setup_car 0)) = {2}
   \<and> trace (loop (steady 200) (setup_car 0))
       = [Fire 0 200, Stop 0, Reset 0, Arm 0, Fire 1 200, Stop 0, Reset 1, Arm 1,
          Fire 2 200, Stop 1, Reset 2, Arm 2]
   \<and> pingTimer (loop (steady 200) (setup_car 0)) = [174, 207, 240]
   \<and> data (loop (steady 200) (setup_car 0)) = [0, 0, 0]"
  using highest_due_wins [of "steady 200" "setup_car 0"]
  by (simp add: due_def NUM_SENSORS_def upt_0_3 steady_def setup_car_eq slot_of_def
      PING_INTERVAL_def)

section \<open>One report per cycle\<close>

lemma last_arm_inv_check: "last_arm_inv s \<Longrightarrow> last_arm_inv (check_sensor inp i s)"
  by (simp add: last_arm_inv_def check_sensor_eq)

lemma last_arm_inv_cong:
  "trace s' = trace s \<Longrightarrow> currentSensor s' = currentSensor s
   \<Longrightarrow> last_arm_inv s' = last_arm_inv s"
  by (simp add: last_arm_inv_def)

lemma last_arm_inv_act:
  assumes "last_arm_inv s"
  shows "last_arm_inv (act a s)"
proof (cases a)
  case (Loop inp)
  have "last_arm_inv (sched inp s)"
    unfolding sched_eq by (intro last_arm_inv_check assms)
  moreover have "last_arm_inv (loop inp s) = last_arm_inv (sched inp s)"
    by (rule last_arm_inv_cong) simp_all
  ultimately show ?thesis using Loop by simp
next
  case (Irq r)
  have "last_arm_inv (echoCheck r s) = last_arm_inv s"
    by (rule last_arm_inv_cong) simp_all
  with assms Irq show ?thesis by simp
qed

lemma last_arm_inv_run: "last_arm_inv s \<Longrightarrow> last_arm_inv (run acts s)"
  by (induction acts arbitrary: s) (simp_all add: last_arm_inv_act)

lemma last_arm_inv_start: "last_arm_inv (setup_car t)"
  by (simp add: last_arm_inv_def setup_car_eq)

lemma check_sensor_later:
  "i \<noteq> 0 \<Longrightarrow> \<exists>ev. trace (check_sensor inp i s) = trace s @ ev \<and> Report \<notin> set ev
     \<and> serial (check_sensor inp i s) = serial s"
  by (simp add: check_sensor_eq)

lemma sched_after_first:
  "\<exists>ev. trace (sched inp s) = trace (check_sensor inp 0 s) @ ev \<and> Report \<notin> set ev
     \<and> serial (sched inp s) = serial (check_sensor inp 0 s)"
proof -
  obtain e1 where e1: "trace (check_sensor inp 1 (check_sensor inp 0 s))
      = trace (check_sensor inp 0 s) @ e1" "Report \<notin> set e1"
      "serial (check_sensor inp 1 (check_sensor inp 0 s)) = serial (check_sensor inp 0 s)"
    using check_sensor_later [of 1 inp "check_sensor inp 0 s"] by auto
  obtain e2 where e2: "trace (sched inp s)
      = trace (check_sensor inp 1 (check_sensor inp 0 s)) @ e2" "Report \<notin> set e2"
      "serial (sched inp s) = serial (check_sensor inp 1 (check_sensor inp 0 s))"
    using check_sensor_later [of 2 inp "check_sensor inp 1 (check_sensor inp 0 s)"]
    by (auto simp: sched_eq)
  from e1 e2 have "trace (sched inp s) = trace (check_sensor inp 0 s) @ (e1 @ e2)
      \<and> Report \<notin> set (e1 @ e2) \<and> serial (sched inp s) = serial (check_sensor inp 0 s)"
    by simp
  then show ?thesis by blast
qed

text \<open>
  Claim C1. In any state \<open>s\<close> that a run reaches after \<open>setup\<close>, a pass of \<open>loop\<close> in
  which the deadline of sensor 0 is due while sensor 2 is the current sensor calls
  \<open>writeDistanceData\<close> exactly once: the last event before the pass is the arming of
  sensor 2, the pass starts with the events deadline of sensor 0 due, report, stop of
  sensor 2, reset of the entry of sensor 0, arming of sensor 0, and the line written
  holds the readings as they were before the reset. In every other pass there is no
  report and nothing is written.
\<close>

theorem report_once_per_cycle:
  assumes "s = run acts (setup_car t0)"
  shows "\<exists>ev. trace (loop inp s) = trace s @ ev \<and>
     (if pingTimer s ! 0 \<le> millis inp 0 \<and> currentSensor s = 2
      then trace s \<noteq> [] \<and> last (trace s) = Arm 2
         \<and> (\<exists>rest. ev = [Fire 0 (millis inp 0), Report, Stop 2, Reset 0, Arm 0] @ rest
               \<and> Report \<notin> set rest)
         \<and> count_list ev Report = 1
         \<and> serial (loop inp s) = serial s @ report_line (data s)
      else Report \<notin> set ev \<and> serial (loop inp s) = serial s)"
proof -
  have inv: "last_arm_inv s"
    unfolding assms by (rule last_arm_inv_run [OF last_arm_inv_start])
  obtain ev where ev: "trace (sched inp s) = trace (check_sensor inp 0 s) @ ev"
      "Report \<notin> set ev" "serial (sched inp s) = serial (check_sensor inp 0 s)"
    using sched_after_first by blast
  show ?thesis
  proof (cases "pingTimer s ! 0 \<le> millis inp 0 \<and> currentSensor s = 2")
    case True
    with inv have arm: "trace s \<noteq> [] \<and> last (trace s) = Arm 2"
      by (auto simp: last_arm_inv_def split: if_splits)
    from True have "trace (check_sensor inp 0 s)
        = trace s @ [Fire 0 (millis inp 0), Report, Stop 2, Reset 0, Arm 0]"
      and "serial (check_sensor inp 0 s) = serial s @ report_line (data s)"
      by (simp_all add: check_sensor_eq)
    with ev have "trace (loop inp s)
        = trace s @ ([Fire 0 (millis inp 0), Report, Stop 2, Reset 0, Arm 0] @ ev)"
      and "serial (loop inp s) = serial s @ report_line (data s)"
      by simp_all
    moreover have "count_list ([Fire 0 (millis inp 0), Report, Stop 2, Reset 0, Arm 0] @ ev) Report = 1"
      using ev(2) by (simp add: count_list_0_iff)
    ultimately show ?thesis using True arm ev(2) by (intro exI [of _ "[Fire 0 (millis inp 0), Report, Stop 2, Reset 0, Arm 0] @ ev"]) auto
  next
    case False
    then have "\<exists>e0. trace (check_sensor inp 0 s) = trace s @ e0 \<and> Report \<notin> set e0
        \<and> serial (check_sensor inp 0 s) = serial s"
      by (simp add: check_sensor_eq)
    then obtain e0 where "trace (check_sensor inp 0 s) = trace s @ e0" "Report \<notin> set e0"
        "serial (check_sensor inp 0 s) = serial s"
      by blast
    with ev have "trace (loop inp s) = trace s @ (e0 @ ev) \<and> Report \<notin> set (e0 @ ev)
        \<and> serial (loop inp s) = serial s"
      by simp
    with False show ?thesis by (intro exI [of _ "e0 @ ev"]) auto
  qed
qed

theorem report_once_per_cycle_witness:
  "pingTimer (run [Loop (steady 1200), Irq (echo_reply True 570)] (setup_car 1000)) ! 0 \<le> 1300
   \<and> currentSensor (run [Loop (steady 1200), Irq (echo_reply True 570)] (setup_car 1000)) = 2
   \<and> last (trace (run [Loop (steady 1200), Irq (echo_reply True 570)] (setup_car 1000))) = Arm 2
   \<and> serial (loop (steady 1300)
        (run [Loop (steady 1200), Irq (echo_reply True 570)] (setup_car 1000)))
       = [CHR ''0'', CHR 0x09, CHR ''0'', CHR 0x09, CHR ''1'', CHR ''0'', CHR 0x09,
          CHR 0x0D, CHR 0x0A]"
proof -
  have p: "pingTimer (run [Loop (steady 1200), Irq (echo_reply True 570)] (setup_car 1000))
      = [1174, 1207, 1240]"
    by (simp add: run_sched_fields setup_car_eq sched_eq check_sensor_eq echoCheck_def Let_def)
  have c: "currentSensor (run [Loop (steady 1200), Irq (echo_reply True 570)] (setup_car 1000))
      = 2"
    by (simp add: run_sched_fields setup_car_eq sched_eq check_sensor_eq echoCheck_def Let_def)
  have d: "data (run [Loop (steady 1200), Irq (echo_reply True 570)] (setup_car 1000))
      = [0, 0, 10]"
    by (simp add: run_sched_fields setup_car_eq sched_eq check_sensor_eq echoCheck_def Let_def
        echo_reply_def)
  have z: "serial (run [Loop (steady 1200), Irq (echo_reply True 570)] (setup_car 1000)) = []"
    by (simp add: run_sched_fields setup_car_eq sched_eq check_sensor_eq echoCheck_def Let_def)
  from report_once_per_cycle [where acts = "[Loop (steady 1200), Irq (echo_reply True 570)]"
      and ?t0.0 = 1000 and inp = "steady 1300", OF refl]
  show ?thesis
    by (auto simp: p c d z report_line_def print_number.simps digit_char_def
        simp del: run_Cons run_Nil)
qed

section \<open>Nominal timing\<close>

lemma nominal_trace_Suc: "nominal_trace b (Suc n) = nominal_trace b n @ slot_events b n"
  by (simp add: nominal_trace_def)

lemma of_nat_le_ulong:
  "d < 2 ^ 32 \<Longrightarrow> (word_of_nat d \<le> (u::ulong)) = (d \<le> unat u)"
  by (simp add: word_le_nat_alt unat_of_nat)

lemma unat_next:
  assumes "(t::ulong) \<le> 0xFFFFFF00" and "u = t \<or> u = t + 1"
  shows "unat t \<le> 4294967040 \<and> (unat u = unat t \<or> unat u = unat t + 1)"
proof -
  have tb: "unat t \<le> 4294967040" using assms(1) by (simp add: word_le_nat_alt)
  then have "unat (t + 1) = unat t + 1" by (simp add: unat_word_ariths)
  with tb assms(2) show ?thesis by auto
qed

lemma mod3_cases: "(n::nat) mod 3 = 0 \<or> n mod 3 = 1 \<or> n mod 3 = 2"
  by arith

lemma nominal_inv_idle:
  assumes inv: "nominal_inv b n t s" and tb: "unat t \<le> 4294967040"
    and lt: "unat u < b + 33 * n" and ge: "unat t \<le> unat u"
    and m: "millis inp 0 = u" "millis inp 1 = u" "millis inp 2 = u"
  shows "nominal_inv b n u (loop inp s)"
proof -
  have hi: "b + 33 * n \<le> unat t + 75" using inv by (simp add: nominal_inv_def)
  have cmp: "\<And>k. k \<le> 66 \<Longrightarrow> \<not> word_of_nat (b + 33 * n + k) \<le> u"
    using hi tb lt by (subst of_nat_le_ulong) auto
  have pt: "pingTimer s = map of_nat (phase_deadlines b n)"
    using inv by (simp add: nominal_inv_def)
  have "sched inp s = s"
    using mod3_cases [of n] cmp [of 0] cmp [of 33] cmp [of 66] m pt
    by (auto simp: sched_eq check_sensor_def phase_deadlines_def Let_def)
  with inv lt ge show ?thesis by (auto simp: nominal_inv_def)
qed

lemma phase_deadlines_Suc:
  "phase_deadlines b (Suc n)
     = (phase_deadlines b n)[n mod 3 := phase_deadlines b n ! (n mod 3) + 99]"
  using mod3_cases [of n] by (auto simp: phase_deadlines_def Let_def mod_Suc)

lemma phase_deadlines_due:
  "length (phase_deadlines b n) = 3 \<and> phase_deadlines b n ! (n mod 3) = b + 33 * n"
  using mod3_cases [of n] by (auto simp: phase_deadlines_def Let_def)

lemma report_slot: "((n::nat) mod 3 = 0 \<and> (n - 1) mod 3 = 2) = (n mod 3 = 0 \<and> 0 < n)"
  by (cases n) (auto simp: mod_Suc split: if_splits)

lemma nominal_inv_fire:
  assumes inv: "nominal_inv b n t s" and tb: "unat t \<le> 4294967040"
    and eq: "unat u = b + 33 * n"
    and m: "millis inp 0 = u" "millis inp 1 = u" "millis inp 2 = u"
  shows "nominal_inv b (Suc n) u (loop inp s)"
proof -
  have hi: "b + 33 * n \<le> unat t + 75" using inv by (simp add: nominal_inv_def)
  have "word_of_nat (unat u) = u" by simp
  with eq have u: "u = word_of_nat (b + 33 * n)" by simp
  have no: "\<And>k. 0 < k \<Longrightarrow> k \<le> 165 \<Longrightarrow> \<not> word_of_nat (b + 33 * n + k) \<le> u"
    using hi tb eq by (subst of_nat_le_ulong) auto
  have yes: "word_of_nat (b + 33 * n) \<le> u" using u by simp
  have pt: "pingTimer s = map of_nat (phase_deadlines b n)"
    using inv by (simp add: nominal_inv_def)
  have cs: "currentSensor s = (n - 1) mod 3"
    using inv by (simp add: nominal_inv_def)
  have sched: "sched inp s = transition (n mod 3) u s"
    using mod3_cases [of n] no [of 33] no [of 66] no [of 99] yes m pt
    by (auto simp: sched_eq check_sensor_def phase_deadlines_def Let_def transition_eq)
  have p': "pingTimer (transition (n mod 3) u s) = map of_nat (phase_deadlines b (Suc n))"
    using phase_deadlines_due [of b n]
    by (simp add: transition_eq pt phase_deadlines_Suc map_update)
  have t': "trace (transition (n mod 3) u s) = nominal_trace (of_nat b) (Suc n)"
    using inv report_slot [of n]
    by (simp add: transition_eq nominal_trace_Suc slot_events_def nominal_inv_def u
        PING_INTERVAL_def mult.commute)
  have s': "Report \<in> set (trace (transition (n mod 3) u s))
      \<or> serial (transition (n mod 3) u s) = []"
    using inv by (auto simp: transition_eq nominal_inv_def)
  show ?thesis
    unfolding nominal_inv_def using p' t' s' eq
    by (simp add: sched) (simp add: transition_eq)
qed

lemma nominal_inv_loop:
  assumes inv: "nominal_inv b n t s" and far: "t \<le> 0xFFFFFF00" and u: "u = t \<or> u = t + 1"
    and m: "millis inp 0 = u" "millis inp 1 = u" "millis inp 2 = u"
  shows "\<exists>n'. nominal_inv b n' u (loop inp s)"
proof -
  from unat_next [OF far u]
  have tb: "unat t \<le> 4294967040" and uu: "unat u = unat t \<or> unat u = unat t + 1" by auto
  have lo: "unat t < b + 33 * n" using inv by (simp add: nominal_inv_def)
  show ?thesis
  proof (cases "unat u < b + 33 * n")
    case True
    with uu have "nominal_inv b n u (loop inp s)"
      by (intro nominal_inv_idle [OF inv tb _ _ m]) auto
    then show ?thesis ..
  next
    case False
    with uu lo have "unat u = b + 33 * n" by auto
    then have "nominal_inv b (Suc n) u (loop inp s)"
      by (rule nominal_inv_fire [OF inv tb _ m])
    then show ?thesis ..
  qed
qed

lemma nominal_inv_run:
  "nominal_inv b n t s \<Longrightarrow> nominal t acts \<Longrightarrow> \<exists>n' t'. nominal_inv b n' t' (run acts s)"
proof (induction acts arbitrary: n t s)
  case Nil
  then show ?case by (auto simp: run_def)
next
  case (Cons a acts)
  show ?case
  proof (cases a)
    case (Loop inp)
    with Cons.prems obtain n' where "nominal_inv b n' (millis inp 0) (loop inp s)"
      using nominal_inv_loop [of b n t s "millis inp 0" inp] by auto
    moreover from Loop Cons.prems have "nominal (millis inp 0) acts" by simp
    ultimately have "\<exists>n'' t'. nominal_inv b n'' t' (run acts (loop inp s))"
      by (rule Cons.IH)
    with Loop show ?thesis by (simp add: run_def)
  next
    case (Irq r)
    from Cons.prems(1) have "nominal_inv b n t (echoCheck r s)"
      by (auto simp: nominal_inv_def)
    moreover from Irq Cons.prems have "nominal t acts" by simp
    ultimately have "\<exists>n'' t'. nominal_inv b n'' t' (run acts (echoCheck r s))"
      by (rule Cons.IH)
    with Irq show ?thesis by (simp add: run_def)
  qed
qed

lemma nominal_inv_start: "nominal_inv (unat t0 + 75) 0 t0 (setup_car t0)"
  by (simp add: nominal_inv_def setup_car_eq phase_deadlines_def nominal_trace_def)

lemma nominal_run_trace:
  assumes "nominal t0 acts"
  shows "\<exists>n. trace (run acts (setup_car t0)) = nominal_trace (t0 + 75) n
     \<and> (Report \<in> set (trace (run acts (setup_car t0))) \<or> serial (run acts (setup_car t0)) = [])"
  using nominal_inv_run [OF nominal_inv_start assms] by (auto simp: nominal_inv_def)

lemma fired_slot_events:
  "fired (slot_events b k) = [(k mod 3, b + of_nat (k * PING_INTERVAL))]"
  by (simp add: slot_events_def)

lemma fired_nominal_trace:
  "fired (nominal_trace b n) = map (\<lambda>k. (k mod 3, b + of_nat (k * PING_INTERVAL))) [0..<n]"
  by (induction n) (simp_all add: nominal_trace_def fired_slot_events)

lemma arms_nominal_trace: "arms (nominal_trace b n) = map (\<lambda>k. k mod 3) [0..<n]"
  by (induction n) (simp_all add: nominal_trace_def slot_events_def)

lemma slot_period:
  "(k + 3) mod 3 = k mod 3
   \<and> (b::ulong) + of_nat ((k + 3) * PING_INTERVAL)
       = b + of_nat (k * PING_INTERVAL) + of_nat (3 * PING_INTERVAL)"
  by (simp add: PING_INTERVAL_def algebra_simps)

text \<open>
  Claim C8. \<open>setup\<close> sets the deadline of sensor \<open>i\<close> to the base time (the clock
  reading plus 75) plus \<open>i\<close> times the ping interval; every transition of sensor \<open>i\<close>
  moves its deadline on by three ping intervals; and under nominal timing the sensors
  are armed in the order 0, 1, 2, 0, 1, 2, ..., the \<open>k\<close>-th arming at the base time plus
  \<open>k\<close> ping intervals, so that two successive armings of the same sensor are three ping
  intervals apart.
\<close>

theorem cyclic_schedule:
  "pingTimer (setup_car t0) = map (\<lambda>i. t0 + 75 + of_nat (i * PING_INTERVAL)) [0..<NUM_SENSORS]
   \<and> pingTimer (transition i t s) = (pingTimer s)[i := pingTimer s ! i + of_nat (3 * PING_INTERVAL)]
   \<and> (nominal t0 acts \<longrightarrow>
        (\<exists>n. arms (trace (run acts (setup_car t0))) = map (\<lambda>k. k mod 3) [0..<n]
           \<and> fired (trace (run acts (setup_car t0)))
               = map (\<lambda>k. (k mod 3, t0 + 75 + of_nat (k * PING_INTERVAL))) [0..<n]
           \<and> (\<forall>k. k + 3 < n \<longrightarrow>
                 fst (fired (trace (run acts (setup_car t0))) ! (k + 3))
                   = fst (fired (trace (run acts (setup_car t0))) ! k)
                 \<and> snd (fired (trace (run acts (setup_car t0))) ! (k + 3))
                   = snd (fired (trace (run acts (setup_car t0))) ! k)
                     + of_nat (3 * PING_INTERVAL))))"
proof -
  have "\<exists>n. arms (trace (run acts (setup_car t0))) = map (\<lambda>k. k mod 3) [0..<n]
           \<and> fired (trace (run acts (setup_car t0)))
               = map (\<lambda>k. (k mod 3, t0 + 75 + of_nat (k * PING_INTERVAL))) [0..<n]
           \<and> (\<forall>k. k + 3 < n \<longrightarrow>
                 fst (fired (trace (run acts (setup_car t0))) ! (k + 3))
                   = fst (fired (trace (run acts (setup_car t0))) ! k)
                 \<and> snd (fired (trace (run acts (setup_car t0))) ! (k + 3))
                   = snd (fired (trace (run acts (setup_car t0))) ! k)
                     + of_nat (3 * PING_INTERVAL))"
    if "nominal t0 acts"
  proof -
    from nominal_run_trace [OF that] obtain n
      where n: "trace (run acts (setup_car t0)) = nominal_trace (t0 + 75) n" by blast
    have f: "fired (trace (run acts (setup_car t0)))
        = map (\<lambda>k. (k mod 3, t0 + 75 + of_nat (k * PING_INTERVAL))) [0..<n]"
      by (simp add: n fired_nominal_trace)
    have a: "arms (trace (run acts (setup_car t0))) = map (\<lambda>k. k mod 3) [0..<n]"
      by (simp add: n arms_nominal_trace)
    have "fst (fired (trace (run acts (setup_car t0))) ! (k + 3))
            = fst (fired (trace (run acts (setup_car t0))) ! k)
          \<and> snd (fired (trace (run acts (setup_car t0))) ! (k + 3))
            = snd (fired (trace (run acts (setup_car t0))) ! k) + of_nat (3 * PING_INTERVAL)"
      if "k + 3 < n" for k
      using that slot_period [of k "t0 + 75"] unfolding f by simp
    with f a show ?thesis by blast
  qed
  moreover have "pingTimer (setup_car t0)
      = map (\<lambda>i. t0 + 75 + of_nat (i * PING_INTERVAL)) [0..<NUM_SENSORS]"
    by (simp add: setup_car_eq NUM_SENSORS_def upt_0_3 PING_INTERVAL_def)
  moreover have "pingTimer (transition i t s)
      = (pingTimer s)[i := pingTimer s ! i + of_nat (3 * PING_INTERVAL)]"
    by (simp add: transition_eq PING_INTERVAL_def)
  ultimately show ?thesis by blast
qed

theorem cyclic_schedule_witness:
  "nominal 1000 (ticks 175 1000)
   \<and> arms (trace (run (ticks 175 1000) (setup_car 1000))) = [0, 1, 2, 0]
   \<and> fired (trace (run (ticks 175 1000) (setup_car 1000)))
       = [(0, 1075), (1, 1108), (2, 1141), (0, 1174)]"
proof -
  have n: "nominal 1000 (ticks 175 1000)"
    by (simp add: ticks.simps)
  have t: "trace (fold act_sched (ticks 175 1000) (setup_car 1000)) =
        [Fire 0 1075, Stop 0, Reset 0, Arm 0,
         Fire 1 1108, Stop 0, Reset 1, Arm 1,
         Fire 2 1141, Stop 1, Reset 2, Arm 2,
         Fire 0 1174, Report, Stop 2, Reset 0, Arm 0]"
    by (simp add: ticks.simps setup_car_eq sched_eq check_sensor_eq)
  from n cyclic_schedule [of 1000 0 0 "setup_car 0" "ticks 175 1000"] show ?thesis
    by (simp add: run_sched_fields t)
qed

lemma nominal_trace_early: "n \<le> 3 \<Longrightarrow> Report \<notin> set (nominal_trace b n)"
proof -
  assume "n \<le> 3"
  then have "n = 0 \<or> n = 1 \<or> n = 2 \<or> n = 3" by arith
  then show ?thesis
    by (auto simp: nominal_trace_def slot_events_def upt_small upt_0_3)
qed

lemma nominal_trace_4:
  "nominal_trace (t0 + 75) 4 =
     [Fire 0 (t0 + 75), Stop 0, Reset 0, Arm 0,
      Fire 1 (t0 + 108), Stop 0, Reset 1, Arm 1,
      Fire 2 (t0 + 141), Stop 1, Reset 2, Arm 2,
      Fire 0 (t0 + 174), Report, Stop 2, Reset 0, Arm 0]"
  by (simp add: nominal_trace_def slot_events_def PING_INTERVAL_def upt_small)

lemma nominal_trace_late:
  assumes "4 \<le> n"
  shows "\<exists>rest. nominal_trace b n = nominal_trace b 4 @ rest"
proof -
  from assms obtain m where n: "n = 4 + m" using le_Suc_ex by blast
  have "[0..<4 + m] = [0..<4] @ [4..<4 + m]"
    by (rule upt_add_eq_append) simp
  then have "nominal_trace b (4 + m)
      = nominal_trace b 4 @ concat (map (slot_events b) [4..<4 + m])"
    unfolding nominal_trace_def by simp
  with n show ?thesis by blast
qed

lemma arms_nominal_trace_early: "n \<le> 3 \<Longrightarrow> arms (nominal_trace b n) = take n [0, 1, 2]"
proof -
  assume "n \<le> 3"
  then have "n = 0 \<or> n = 1 \<or> n = 2 \<or> n = 3" by arith
  then show ?thesis
    by (auto simp: arms_nominal_trace upt_small upt_0_3)
qed

text \<open>
  Claim C10, as stated: after \<open>setup\<close> the first report is made at the second arming of
  sensor 0, whatever the timing. It is not: with passes of \<open>loop\<close> at the clock
  readings 110, 180 and 273 after a \<open>setup\<close> at 0, sensor 0 is armed a second time
  while sensor 1 is the current sensor, and the first report is made at its third
  arming.
\<close>

theorem first_report_counterexample:
  "trace (run [Loop (steady 110), Loop (steady 180), Loop (steady 273)] (setup_car 0))
     = [Fire 0 110, Stop 0, Reset 0, Arm 0, Fire 1 110, Stop 0, Reset 1, Arm 1,
        Fire 0 180, Stop 1, Reset 0, Arm 0, Fire 2 180, Stop 0, Reset 2, Arm 2,
        Fire 0 273, Report, Stop 2, Reset 0, Arm 0, Fire 1 273, Stop 0, Reset 1, Arm 1,
        Fire 2 273, Stop 1, Reset 2, Arm 2]"
  by (simp add: run_sched_fields setup_car_eq sched_eq check_sensor_eq)

text \<open>
  Claim C10, amended. In the state that \<open>setup\<close> leaves, a due deadline of sensor 0 makes
  no report. Under nominal timing a run after \<open>setup\<close> has either reported nothing and
  written nothing, the sensors armed so far being an initial part of 0, 1, 2; or its
  trace begins with the slots of sensors 0, 1 and 2 without a report, followed by the
  second slot of sensor 0 with the first report, made while sensor 2 is still the
  current sensor.
\<close>

theorem first_report_after_full_cycle:
  "Report \<notin> set (trace (check_sensor inp 0 (setup_car t0)))
   \<and> serial (check_sensor inp 0 (setup_car t0)) = []
   \<and> (nominal t0 acts \<longrightarrow>
        (Report \<notin> set (trace (run acts (setup_car t0)))
         \<and> serial (run acts (setup_car t0)) = []
         \<and> (\<exists>k. k \<le> 3 \<and> arms (trace (run acts (setup_car t0))) = take k [0, 1, 2]))
        \<or> (\<exists>rest. trace (run acts (setup_car t0)) =
              [Fire 0 (t0 + 75), Stop 0, Reset 0, Arm 0,
               Fire 1 (t0 + 108), Stop 0, Reset 1, Arm 1,
               Fire 2 (t0 + 141), Stop 1, Reset 2, Arm 2,
               Fire 0 (t0 + 174), Report, Stop 2, Reset 0, Arm 0] @ rest))"
proof -
  have late: "(Report \<notin> set (trace (run acts (setup_car t0)))
          \<and> serial (run acts (setup_car t0)) = []
          \<and> (\<exists>k. k \<le> 3 \<and> arms (trace (run acts (setup_car t0))) = take k [0, 1, 2]))
        \<or> (\<exists>rest. trace (run acts (setup_car t0)) = nominal_trace (t0 + 75) 4 @ rest)"
    if "nominal t0 acts"
  proof -
    from nominal_run_trace [OF that] obtain n
      where n: "trace (run acts (setup_car t0)) = nominal_trace (t0 + 75) n"
        "Report \<in> set (trace (run acts (setup_car t0))) \<or> serial (run acts (setup_car t0)) = []"
      by blast
    show ?thesis
    proof (cases "n \<le> 3")
      case True
      with n nominal_trace_early [of n "t0 + 75"] arms_nominal_trace_early [of n "t0 + 75"]
      show ?thesis by auto
    next
      case False
      then have "4 \<le> n" by simp
      from nominal_trace_late [OF this, of "t0 + 75"] n(1) show ?thesis by auto
    qed
  qed
  have first: "Report \<notin> set (trace (check_sensor inp 0 (setup_car t0)))
      \<and> serial (check_sensor inp 0 (setup_car t0)) = []"
    by (simp add: check_sensor_eq setup_car_eq)
  from late first show ?thesis
    unfolding nominal_trace_4 by blast
qed

theorem first_report_after_full_cycle_witness:
  "nominal 1000 (ticks 175 1000)
   \<and> trace (run (ticks 175 1000) (setup_car 1000)) =
        [Fire 0 1075, Stop 0, Reset 0, Arm 0,
         Fire 1 1108, Stop 0, Reset 1, Arm 1,
         Fire 2 1141, Stop 1, Reset 2, Arm 2,
         Fire 0 1174, Report, Stop 2, Reset 0, Arm 0]
   \<and> serial (run (ticks 175 1000) (setup_car 1000)) = report_line [0, 0, 0]
   \<and> nominal 1000 (ticks 174 1000)
   \<and> arms (trace (run (ticks 174 1000) (setup_car 1000))) = [0, 1, 2]
   \<and> serial (run (ticks 174 1000) (setup_car 1000)) = []"
proof -
  have n: "nominal 1000 (ticks 175 1000)" "nominal 1000 (ticks 174 1000)"
    by (simp_all add: ticks.simps)
  have t: "trace (fold act_sched (ticks 175 1000) (setup_car 1000)) =
        [Fire 0 1075, Stop 0, Reset 0, Arm 0,
         Fire 1 1108, Stop 0, Reset 1, Arm 1,
         Fire 2 1141, Stop 1, Reset 2, Arm 2,
         Fire 0 1174, Report, Stop 2, Reset 0, Arm 0]"
    by (simp add: ticks.simps setup_car_eq sched_eq check_sensor_eq)
  have s: "serial (fold act_sched (ticks 175 1000) (setup_car 1000)) = report_line [0, 0, 0]"
    by (simp add: ticks.simps setup_car_eq sched_eq check_sensor_eq)
  have t': "trace (fold act_sched (ticks 174 1000) (setup_car 1000)) =
        [Fire 0 1075, Stop 0, Reset 0, Arm 0,
         Fire 1 1108, Stop 0, Reset 1, Arm 1,
         Fire 2 1141, Stop 1, Reset 2, Arm 2]"
    by (simp add: ticks.simps setup_car_eq sched_eq check_sensor_eq)
  have s': "serial (fold act_sched (ticks 174 1000) (setup_car 1000)) = []"
    by (simp add: ticks.simps setup_car_eq sched_eq check_sensor_eq)
  from n t s t' s' first_report_after_full_cycle [of "steady 1000" 1000 "ticks 175 1000"]
    first_report_after_full_cycle [of "steady 1000" 1000 "ticks 174 1000"]
  show ?thesis
    by (simp add: run_sched_fields)
qed

end
